theory Spec2Isabelle
  imports Main "HOL-Library.AList"
begin

section \<open>Texts and JavaScript values\<close>

text \<open>
  A text is the list of its UTF-8 bytes. The operations the pipeline applies to texts
  (concatenation, joining with a space, replacing line feeds by spaces) touch ASCII bytes
  only, and no byte of a multi-byte UTF-8 sequence is an ASCII byte, so they act on the
  bytes as they act on the characters.
\<close>

definition newline :: char where
  "newline = CHR 0x0A"

definition space :: char where
  "space = CHR 0x20"

text \<open>\<^verbatim>\<open>text.replace(/\n/g, " ")\<close>: every line feed becomes a space.\<close>

definition replace_newlines :: "string \<Rightarrow> string" where
  "replace_newlines t = map (\<lambda>c. if c = newline then space else c) t"

text \<open>The decimal rendering of an array index or a length inside a template literal.\<close>

definition digit_char :: "nat \<Rightarrow> char" where
  "digit_char d = ''0123456789'' ! d"

fun show_nat :: "nat \<Rightarrow> string" where
  "show_nat n = (if n < 10 then [digit_char n] else show_nat (n div 10) @ [digit_char (n mod 10)])"

declare show_nat.simps [simp del]

definition show_int :: "int \<Rightarrow> string" where
  "show_int i = (if i < 0 then CHR ''-'' # show_nat (nat (- i)) else show_nat (nat i))"

text \<open>
  The JavaScript values that occur in document metadata and in the entry point's answer.
  An object is the list of its properties in insertion order; numbers are the integers
  (line numbers) that the metadata holds.
\<close>

datatype jsval =
    Undefined
  | Null
  | Str string
  | Num int
  | Obj "(string \<times> jsval) list"

text \<open>Reading a property: a missing property reads as \<^verbatim>\<open>undefined\<close>.\<close>

definition get_prop :: "(string \<times> jsval) list \<Rightarrow> string \<Rightarrow> jsval" where
  "get_prop obj k = (case map_of obj k of None \<Rightarrow> Undefined | Some v \<Rightarrow> v)"

text \<open>The conversion to a string that a template literal applies to an interpolated value.\<close>

fun to_string :: "jsval \<Rightarrow> string" where
  "to_string Undefined = ''undefined''"
| "to_string Null = ''null''"
| "to_string (Str s) = s"
| "to_string (Num n) = show_int n"
| "to_string (Obj _) = ''[object Object]''"

text \<open>
  \<^verbatim>\<open>Array.prototype.join(" ")\<close>: the elements' strings with one space between
  neighbours; \<^verbatim>\<open>undefined\<close> and \<^verbatim>\<open>null\<close> elements contribute the empty string.
\<close>

fun join_item :: "jsval \<Rightarrow> string" where
  "join_item Undefined = []"
| "join_item Null = []"
| "join_item v = to_string v"

fun join_space :: "jsval list \<Rightarrow> string" where
  "join_space [] = []"
| "join_space [v] = join_item v"
| "join_space (v # w # vs) = join_item v @ [space] @ join_space (w # vs)"

text \<open>
  Cutting a list into consecutive runs of \<open>n\<close> elements, the last run shorter when the
  length is no multiple of \<open>n\<close>: what "batches of at most \<open>n\<close>" are measured against.
\<close>

function segments :: "nat \<Rightarrow> 'a list \<Rightarrow> 'a list list" where
  "segments n xs = (if xs = [] \<or> n = 0 then [] else take n xs # segments n (drop n xs))"
  by pat_completeness auto
termination
  by (relation "measure (\<lambda>(n, xs). length xs)") auto

declare segments.simps [simp del]

section \<open>Data model\<close>

text \<open>A langchain \<^verbatim>\<open>Document\<close>: a source document as well as a chunk of one.\<close>

record document =
  pageContent :: string
  metadata :: "(string \<times> jsval) list"

text \<open>A vector record; \<open>vec_values\<close> is \<open>None\<close> where the source reads past the end of
  the embeddings array (\<^verbatim>\<open>undefined\<close>).\<close>

record 'v vector =
  vec_id :: string
  vec_values :: "'v option"
  vec_metadata :: "(string \<times> jsval) list"

record create_request =
  req_name :: string
  req_dimension :: nat
  req_metric :: string

record 'v query_request =
  topK :: nat
  query_vector :: 'v
  includeMetadata :: bool
  includeValues :: bool

text \<open>A match of an index query; its metadata may be absent.\<close>

record 'v scored_vector =
  match_id :: string
  match_values :: "'v option"
  match_metadata :: "(string \<times> jsval) list option"

record chain_values =
  chain_input_documents :: "document list"
  chain_question :: string

text \<open>
  Everything the functions do to the outside world, in the order they do it: console
  lines and the requests to the vector index, the embedding service and the language
  model. Every request is answered; a failing request would reject the call it is in.
\<close>

datatype 'v effect =
    Log string
  | ListIndexes
  | CreateIndex create_request
  | Wait nat
  | EmbedDocuments "string list"
  | Upsert string "'v vector list"
  | EmbedQuery string
  | IndexQuery string "'v query_request"
  | ChainCall chain_values

text \<open>The requests among effects: what is left when the console lines are dropped.\<close>

fun without_logs :: "'v effect list \<Rightarrow> 'v effect list" where
  "without_logs [] = []"
| "without_logs (Log _ # es) = without_logs es"
| "without_logs (e # es) = e # without_logs es"

section \<open>Index provisioner\<close>

text \<open>
  The Pinecone client as far as \<^verbatim>\<open>createPineconeIndex\<close> uses it: the remote service
  has a state \<open>'r\<close>, \<open>listIndexes\<close> reads the names of its indexes and \<open>createIndex\<close>
  changes it.
\<close>

record 'r client =
  listIndexes :: "'r \<Rightarrow> string list"
  createIndex :: "create_request \<Rightarrow> 'r \<Rightarrow> 'r"

text \<open>
  \<^verbatim>\<open>createPineconeIndex(client, indexName, vectorDimension)\<close>; the waiting time
  \<open>timeout\<close> comes from the configuration module. The result is the remote state after
  the call and the effects of the call.
\<close>

definition createPineconeIndex ::
  "'r client \<Rightarrow> nat \<Rightarrow> string \<Rightarrow> nat \<Rightarrow> 'r \<Rightarrow> 'r \<times> 'v effect list" where
  "createPineconeIndex c timeout indexName vectorDimension r =
     (let existingIndexes = listIndexes c r in
      if \<not> indexName \<in> set existingIndexes
      then
        (let request = \<lparr>req_name = indexName, req_dimension = vectorDimension,
                          req_metric = ''cosine''\<rparr>
         in (createIndex c request r,
             [Log (''Checking \"'' @ indexName @ ''\"...''),
              ListIndexes,
              Log (''Creating \"'' @ indexName @ ''\"...''),
              CreateIndex request,
              Log ''Creating index... please wait for it to finish initializing.'',
              Wait timeout]))
      else
        (r,
         [Log (''Checking \"'' @ indexName @ ''\"...''),
          ListIndexes,
          Log (''\"'' @ indexName @ ''\" already exists.'')]))"

text \<open>Two calls in sequence with the same arguments, the second on the state the first left.\<close>

definition createPineconeIndex_twice ::
  "'r client \<Rightarrow> nat \<Rightarrow> string \<Rightarrow> nat \<Rightarrow> 'r \<Rightarrow> 'r \<times> 'v effect list" where
  "createPineconeIndex_twice c timeout indexName vectorDimension r =
     (case createPineconeIndex c timeout indexName vectorDimension r of
        (r1, effects1) \<Rightarrow>
          (case createPineconeIndex c timeout indexName vectorDimension r1 of
             (r2, effects2) \<Rightarrow> (r2, effects1 @ effects2)))"

text \<open>The creation requests among a list of effects.\<close>

fun creation_requests :: "'v effect list \<Rightarrow> create_request list" where
  "creation_requests [] = []"
| "creation_requests (CreateIndex q # es) = q # creation_requests es"
| "creation_requests (_ # es) = creation_requests es"

text \<open>A remote service that is just the list of its index names; creating appends one.\<close>

definition list_client :: "(string list) client" where
  "list_client = \<lparr>listIndexes = (\<lambda>r. r), createIndex = (\<lambda>q r. r @ [req_name q])\<rparr>"

section \<open>Ingestion pipeline\<close>

definition upsert_batchSize :: nat where
  "upsert_batchSize = 100"

text \<open>\<^verbatim>\<open>embeddingsArrays[idx]\<close>: reading past the end gives \<^verbatim>\<open>undefined\<close>.\<close>

definition nth_opt :: "'a list \<Rightarrow> nat \<Rightarrow> 'a option" where
  "nth_opt xs i = (if i < length xs then Some (xs ! i) else None)"

text \<open>
  The vector record of chunk \<open>idx\<close>. The object literal spreads the chunk's metadata and
  then sets \<^verbatim>\<open>loc\<close>, \<^verbatim>\<open>pageContent\<close> and \<^verbatim>\<open>txtPath\<close>: a property that is already
  there keeps its place and gets the new value, a new one goes to the end. The built-in
  \<^verbatim>\<open>JSON.stringify\<close> is the parameter \<open>stringify\<close>.
\<close>

definition make_vector ::
  "(jsval \<Rightarrow> jsval) \<Rightarrow> jsval \<Rightarrow> document \<Rightarrow> 'v list \<Rightarrow> nat \<Rightarrow> 'v vector" where
  "make_vector stringify txtPath chunk embeddingsArrays idx =
     \<lparr>vec_id = to_string txtPath @ ''_'' @ show_nat idx,
      vec_values = nth_opt embeddingsArrays idx,
      vec_metadata =
        AList.update ''txtPath'' txtPath
          (AList.update ''pageContent'' (Str (pageContent chunk))
            (AList.update ''loc'' (stringify (get_prop (metadata chunk) ''loc''))
              (metadata chunk)))\<rparr>"

text \<open>
  The loop over \<open>idx\<close> that builds the records and upserts them; \<open>batch\<close> is the batch
  collected so far, the result is the list of upsert requests issued from \<open>idx\<close> on.
\<close>

function upsert_loop ::
  "(jsval \<Rightarrow> jsval) \<Rightarrow> string \<Rightarrow> jsval \<Rightarrow> document list \<Rightarrow> 'v list \<Rightarrow> nat \<Rightarrow>
   'v vector list \<Rightarrow> 'v effect list" where
  "upsert_loop stringify indexName txtPath chunks embeddingsArrays idx batch =
     (if idx < length chunks then
        (let chunk = chunks ! idx;
             vector = make_vector stringify txtPath chunk embeddingsArrays idx;
             batch1 = batch @ [vector]
         in if length batch1 = upsert_batchSize \<or> idx = length chunks - 1
            then Upsert indexName batch1 #
                 upsert_loop stringify indexName txtPath chunks embeddingsArrays (idx + 1) []
            else upsert_loop stringify indexName txtPath chunks embeddingsArrays (idx + 1) batch1)
      else [])"
  by pat_completeness auto
termination
  by (relation "measure (\<lambda>(stringify, indexName, txtPath, chunks, embeddingsArrays, idx, batch).
        length chunks - idx)") auto

declare upsert_loop.simps [simp del]

text \<open>
  The body of the loop over the documents. The text splitter (\<open>createDocuments\<close>, called
  with the chunk size) and the embedding client of the \<^verbatim>\<open>langchain\<close> library are the
  parameters \<open>createDocuments\<close> and \<open>embedder\<close>.
\<close>

definition process_document ::
  "(nat \<Rightarrow> string \<Rightarrow> document list) \<Rightarrow> (string list \<Rightarrow> 'v list) \<Rightarrow> (jsval \<Rightarrow> jsval) \<Rightarrow>
   string \<Rightarrow> document \<Rightarrow> 'v effect list" where
  "process_document createDocuments embedder stringify indexName doc =
     (let txtPath = get_prop (metadata doc) ''source'';
          text = pageContent doc;
          chunks = createDocuments 1000 text;
          texts = map (\<lambda>chunk. replace_newlines (pageContent chunk)) chunks;
          embeddingsArrays = embedder texts
      in [Log (''Processing document: '' @ to_string txtPath),
          Log ''Splitting text into chunks...'',
          Log (''Text split into '' @ show_nat (length chunks) @ '' chunks''),
          Log (''Calling OpenAI's Embedding endpoint documents with '' @
               show_nat (length chunks) @ '' text chunks ...''),
          EmbedDocuments texts,
          Log (''Creating '' @ show_nat (length chunks) @
               '' vectors array with id, values, and metadata...'')]
         @ upsert_loop stringify indexName txtPath chunks embeddingsArrays 0 [])"

fun process_documents ::
  "(nat \<Rightarrow> string \<Rightarrow> document list) \<Rightarrow> (string list \<Rightarrow> 'v list) \<Rightarrow> (jsval \<Rightarrow> jsval) \<Rightarrow>
   string \<Rightarrow> document list \<Rightarrow> 'v effect list" where
  "process_documents createDocuments embedder stringify indexName [] = []"
| "process_documents createDocuments embedder stringify indexName (doc # docs) =
     process_document createDocuments embedder stringify indexName doc
     @ process_documents createDocuments embedder stringify indexName docs"

definition updatePinecone ::
  "(nat \<Rightarrow> string \<Rightarrow> document list) \<Rightarrow> (string list \<Rightarrow> 'v list) \<Rightarrow> (jsval \<Rightarrow> jsval) \<Rightarrow>
   string \<Rightarrow> document list \<Rightarrow> 'v effect list" where
  "updatePinecone createDocuments embedder stringify indexName docs =
     Log (''Pinecone index retrieved: '' @ indexName)
     # process_documents createDocuments embedder stringify indexName docs"

text \<open>The batches upserted, and the texts sent to the embedding service, among effects.\<close>

fun upserted :: "'v effect list \<Rightarrow> 'v vector list list" where
  "upserted [] = []"
| "upserted (Upsert _ batch # es) = batch # upserted es"
| "upserted (_ # es) = upserted es"

fun embedded_texts :: "'v effect list \<Rightarrow> string list list" where
  "embedded_texts [] = []"
| "embedded_texts (EmbedDocuments texts # es) = texts # embedded_texts es"
| "embedded_texts (_ # es) = embedded_texts es"

section \<open>Query pipeline and entry point\<close>

text \<open>The text appended to the question: a comma, a space and a request in Vietnamese.\<close>

definition question_suffix :: string where
  "question_suffix =
     '', tr'' @ [CHR 0xE1, CHR 0xBA, CHR 0xA3] @
     '' l'' @ [CHR 0xE1, CHR 0xBB, CHR 0x9D] @ ''i'' @
     '' b'' @ [CHR 0xE1, CHR 0xBA, CHR 0xB1] @ ''ng'' @
     '' th'' @ [CHR 0xC6, CHR 0xA1] @
     '' nh'' @ [CHR 0xC3, CHR 0xA9]"

text \<open>\<^verbatim>\<open>match?.metadata?.pageContent\<close>\<close>

definition match_pageContent :: "'v scored_vector \<Rightarrow> jsval" where
  "match_pageContent m =
     (case match_metadata m of None \<Rightarrow> Undefined | Some md \<Rightarrow> get_prop md ''pageContent'')"

text \<open>
  \<^verbatim>\<open>queryPineconeVectorStoreAndQueryLLM(client, indexName, question)\<close>. The parameters
  stand for the services: \<open>embedder\<close> for the embedding of the question, \<open>index_query\<close> for the
  index (its answer is the \<^verbatim>\<open>matches\<close> field, which may be absent), \<open>qa_chain\<close> for the
  question-answering chain (its answer is the \<^verbatim>\<open>text\<close> field), and \<open>render\<close> for the
  console's rendering of \<^verbatim>\<open>JSON.stringify(queryResponse.matches)\<close>. The result is the
  returned value and the effects.
\<close>

definition queryPineconeVectorStoreAndQueryLLM ::
  "(string \<Rightarrow> 'v) \<Rightarrow> (string \<Rightarrow> 'v query_request \<Rightarrow> 'v scored_vector list option) \<Rightarrow>
   (chain_values \<Rightarrow> string) \<Rightarrow> ('v scored_vector list option \<Rightarrow> string) \<Rightarrow>
   string \<Rightarrow> string \<Rightarrow> jsval \<times> 'v effect list" where
  "queryPineconeVectorStoreAndQueryLLM embedder index_query qa_chain render indexName question =
     (let queryEmbedding = embedder question;
          queryRequest = \<lparr>topK = 10, query_vector = queryEmbedding,
                          includeMetadata = True, includeValues = True\<rparr>;
          matches = index_query indexName queryRequest;
          effects =
            [Log ''Querying Pinecone vector store...'',
             EmbedQuery question,
             IndexQuery indexName queryRequest,
             Log (''Found '' @ (case matches of None \<Rightarrow> ''undefined''
                                | Some ms \<Rightarrow> show_nat (length ms)) @ '' matches...''),
             Log ''Got vectors:'',
             Log (render matches),
             Log (''Asking question: '' @ question @ ''...'')]
      in case matches of
           Some (m # ms) \<Rightarrow>
             (let concatenatedPageContent = join_space (map match_pageContent (m # ms));
                  chain_input =
                    \<lparr>chain_input_documents =
                       [\<lparr>pageContent = concatenatedPageContent, metadata = []\<rparr>],
                     chain_question = question @ question_suffix\<rparr>;
                  text = qa_chain chain_input
              in (Str text, effects @ [ChainCall chain_input, Log (''Answer: '' @ text)]))
         | _ \<Rightarrow>
             (Undefined,
              effects @ [Log ''There is no matches, so GPT-3 will not be queried.'']))"

text \<open>The calls of the language model among effects.\<close>

fun chain_calls :: "'v effect list \<Rightarrow> chain_values list" where
  "chain_calls [] = []"
| "chain_calls (ChainCall chain_input # es) = chain_input # chain_calls es"
| "chain_calls (_ # es) = chain_calls es"

text \<open>
  The JSON document that \<^verbatim>\<open>NextResponse.json\<close> writes for a value: it serialises with
  \<^verbatim>\<open>JSON.stringify\<close>, which has no output for \<^verbatim>\<open>undefined\<close> and leaves out the
  properties of an object whose value is \<^verbatim>\<open>undefined\<close>.
\<close>

datatype json =
    JNull
  | JString string
  | JNumber int
  | JObject "(string \<times> json) list"

fun to_json :: "jsval \<Rightarrow> json option"
  and props_to_json :: "(string \<times> jsval) list \<Rightarrow> (string \<times> json) list" where
  "to_json Undefined = None"
| "to_json Null = Some JNull"
| "to_json (Str s) = Some (JString s)"
| "to_json (Num n) = Some (JNumber n)"
| "to_json (Obj ps) = Some (JObject (props_to_json ps))"
| "props_to_json [] = []"
| "props_to_json ((k, v) # ps) =
     (case to_json v of None \<Rightarrow> props_to_json ps | Some j \<Rightarrow> (k, j) # props_to_json ps)"

text \<open>
  The handler of \<^verbatim>\<open>POST\<close>: the parsed body of the request is passed on as the question;
  the result is the body of the response and the effects.
\<close>

definition POST ::
  "(string \<Rightarrow> 'v) \<Rightarrow> (string \<Rightarrow> 'v query_request \<Rightarrow> 'v scored_vector list option) \<Rightarrow>
   (chain_values \<Rightarrow> string) \<Rightarrow> ('v scored_vector list option \<Rightarrow> string) \<Rightarrow>
   string \<Rightarrow> string \<Rightarrow> json option \<times> 'v effect list" where
  "POST embedder index_query qa_chain render indexName body =
     (case queryPineconeVectorStoreAndQueryLLM embedder index_query qa_chain render indexName body of
        (text, effects) \<Rightarrow> (to_json (Obj [(''data'', text)]), effects))"

section \<open>Embedding clients\<close>

text \<open>
  The body of a request to the embedding service holds one text or a list of texts. The
  service is a function \<open>post\<close> from the request's input to the \<^verbatim>\<open>data\<close> array of the
  response, one embedding per entry. Reading an entry that the response does not have
  and then its \<^verbatim>\<open>embedding\<close> is a \<^verbatim>\<open>TypeError\<close>. A request that fails altogether
  rejects the whole call and is not part of the model: every request here is answered.
\<close>

datatype embed_input = Single string | Many "string list"

datatype error = TypeError

subsection \<open>The batching client\<close>

record llama_params =
  batchSize :: nat
  stripNewLines :: bool

text \<open>The constructor: a field that is not given keeps its default.\<close>

definition LlamaEmbeddings :: "nat option \<Rightarrow> bool option \<Rightarrow> llama_params" where
  "LlamaEmbeddings fields_batchSize fields_stripNewLines =
     \<lparr>batchSize = (case fields_batchSize of None \<Rightarrow> 512 | Some b \<Rightarrow> b),
      stripNewLines = (case fields_stripNewLines of None \<Rightarrow> True | Some s \<Rightarrow> s)\<rparr>"

text \<open>
  Modelled from the spec: the helper \<^verbatim>\<open>chunkArray\<close> of \<^verbatim>\<open>../util/chunk\<close>, which is not
  among the sources. The spec has the client batch the documents "into groups no larger
  than a configured batch size" and reassemble the results "in original order": the
  groups are consecutive runs of the list, each of the batch size except a shorter last
  one. A batch size of 0 admits no such grouping; no group is formed then.
\<close>

definition chunkArray :: "'a list \<Rightarrow> nat \<Rightarrow> 'a list list" where
  "chunkArray arr chunkSize = segments chunkSize arr"

text \<open>\<^verbatim>\<open>embedQuery\<close>: the requests issued and the result.\<close>

definition embedQuery ::
  "llama_params \<Rightarrow> (embed_input \<Rightarrow> 'v list) \<Rightarrow> string \<Rightarrow> embed_input list \<times> (error + 'v)" where
  "embedQuery this post text =
     (let request = Single (if stripNewLines this then replace_newlines text else text);
          data = post request
      in ([request], case data of [] \<Rightarrow> Inl TypeError | e # _ \<Rightarrow> Inr e))"

text \<open>The inner loop of \<^verbatim>\<open>embedDocuments\<close>, over the positions \<open>j\<close> of one batch.\<close>

function collect_batch :: "string list \<Rightarrow> 'v list \<Rightarrow> nat \<Rightarrow> 'v list \<Rightarrow> error + 'v list" where
  "collect_batch batch batchResponse j embeddings =
     (if j < length batch then
        (if j < length batchResponse
         then collect_batch batch batchResponse (j + 1) (embeddings @ [batchResponse ! j])
         else Inl TypeError)
      else Inr embeddings)"
  by pat_completeness auto
termination
  by (relation "measure (\<lambda>(batch, batchResponse, j, embeddings). length batch - j)") auto

declare collect_batch.simps [simp del]

text \<open>The outer loop, over the positions \<open>i\<close> of the responses.\<close>

function collect_batches ::
  "string list list \<Rightarrow> 'v list list \<Rightarrow> nat \<Rightarrow> 'v list \<Rightarrow> error + 'v list" where
  "collect_batches batches batchResponses i embeddings =
     (if i < length batchResponses then
        (if i < length batches
         then (case collect_batch (batches ! i) (batchResponses ! i) 0 embeddings of
                 Inl e \<Rightarrow> Inl e
               | Inr embeddings1 \<Rightarrow> collect_batches batches batchResponses (i + 1) embeddings1)
         else Inl TypeError)
      else Inr embeddings)"
  by pat_completeness auto
termination
  by (relation "measure (\<lambda>(batches, batchResponses, i, embeddings). length batchResponses - i)")
    auto

declare collect_batches.simps [simp del]

text \<open>\<^verbatim>\<open>embedDocuments\<close>: all requests are issued, then the responses are read in order.\<close>

definition embedDocuments ::
  "llama_params \<Rightarrow> (embed_input \<Rightarrow> 'v list) \<Rightarrow> string list \<Rightarrow>
   embed_input list \<times> (error + 'v list)" where
  "embedDocuments this post texts =
     (let batches = chunkArray
            (if stripNewLines this then map replace_newlines texts else texts)
            (batchSize this);
          batchRequests = map Many batches;
          batchResponses = map post batchRequests
      in (batchRequests, collect_batches batches batchResponses 0 []))"

subsection \<open>The sequential client\<close>

definition embedQuery_seq ::
  "(embed_input \<Rightarrow> 'v list) \<Rightarrow> string \<Rightarrow> embed_input list \<times> (error + 'v)" where
  "embedQuery_seq post text =
     (let result = post (Single text)
      in ([Single text], case result of [] \<Rightarrow> Inl TypeError | e # _ \<Rightarrow> Inr e))"

text \<open>The loop over the documents: one request each, awaited before the next.\<close>

fun embedDocuments_loop ::
  "(embed_input \<Rightarrow> 'v list) \<Rightarrow> string list \<Rightarrow> 'v list \<Rightarrow> embed_input list \<times> (error + 'v list)"
  where
  "embedDocuments_loop post [] embeddings = ([], Inr embeddings)"
| "embedDocuments_loop post (doc # documents) embeddings =
     (case post (Single doc) of
        [] \<Rightarrow> ([Single doc], Inl TypeError)
      | e # _ \<Rightarrow>
          (case embedDocuments_loop post documents (embeddings @ [e]) of
             (requests, result) \<Rightarrow> (Single doc # requests, result)))"

definition embedDocuments_seq ::
  "(embed_input \<Rightarrow> 'v list) \<Rightarrow> string list \<Rightarrow> embed_input list \<times> (error + 'v list)" where
  "embedDocuments_seq post documents = embedDocuments_loop post documents []"

text \<open>
  An embedding service that answers each text by itself, whether it comes alone or in a
  list: \<open>f\<close> is the embedding of one text.
\<close>

fun per_text :: "(string \<Rightarrow> 'v) \<Rightarrow> embed_input \<Rightarrow> 'v list" where
  "per_text f (Single t) = [f t]"
| "per_text f (Many ts) = map f ts"

text \<open>The texts of a list of requests, in order.\<close>

fun input_texts :: "embed_input \<Rightarrow> string list" where
  "input_texts (Single t) = [t]"
| "input_texts (Many ts) = ts"

section \<open>Sample services\<close>

text \<open>Concrete services on which the theorems below are run.\<close>

definition sample_embedder :: "string \<Rightarrow> nat list" where
  "sample_embedder t = map of_char t"

definition sample_matches :: "nat list scored_vector list" where
  "sample_matches =
     [\<lparr>match_id = ''a.txt_0'', match_values = None,
       match_metadata = Some [(''pageContent'', Str ''alpha'')]\<rparr>,
      \<lparr>match_id = ''a.txt_1'', match_values = None,
       match_metadata = Some [(''pageContent'', Str ''beta'')]\<rparr>]"

definition sample_index ::
  "string \<Rightarrow> nat list query_request \<Rightarrow> nat list scored_vector list option" where
  "sample_index indexName request = Some sample_matches"

definition empty_index ::
  "string \<Rightarrow> nat list query_request \<Rightarrow> nat list scored_vector list option" where
  "empty_index indexName request = Some []"

definition sample_chain :: "chain_values \<Rightarrow> string" where
  "sample_chain input = ''forty-two''"

definition sample_render :: "nat list scored_vector list option \<Rightarrow> string" where
  "sample_render matches = ''[...]''"

text \<open>A splitter that makes every character a chunk of its own, and a document embedder.\<close>

definition sample_splitter :: "nat \<Rightarrow> string \<Rightarrow> document list" where
  "sample_splitter chunkSize text =
     map (\<lambda>t. \<lparr>pageContent = t, metadata = [(''loc'', Num 1)]\<rparr>) (segments (min 1 chunkSize) text)"

definition sample_embedDocuments :: "string list \<Rightarrow> nat list list" where
  "sample_embedDocuments texts = map sample_embedder texts"

definition sample_stringify :: "jsval \<Rightarrow> jsval" where
  "sample_stringify v = (case v of Undefined \<Rightarrow> Undefined | _ \<Rightarrow> Str ''{}'')"

definition sample_document :: document where
  "sample_document =
     \<lparr>pageContent = [CHR ''a'', newline, CHR ''b''],
      metadata = [(''source'', Str ''a.txt'')]\<rparr>"

section \<open>Arithmetic and lists\<close>

subsection \<open>Rounding up a quotient\<close>

lemma div_up_one: "Suc 0 \<le> a \<Longrightarrow> a \<le> n \<Longrightarrow> (a + n - 1) div n = (1::nat)"
  by (rule div_nat_eqI) simp_all

lemma div_up_exact: "0 < q \<Longrightarrow> 0 < n \<Longrightarrow> (q * n + n - 1) div n = (q::nat)"
proof (rule div_nat_eqI)
  assume "0 < q" "0 < n"
  then have "n \<le> q * n" by (cases q) simp_all
  then show "n * q \<le> q * n + n - 1" using \<open>0 < n\<close> by (simp add: mult.commute)
  show "q * n + n - 1 < n * Suc q" using \<open>0 < n\<close> by (simp add: mult.commute)
qed

lemma div_up_rest: "0 < r \<Longrightarrow> r < n \<Longrightarrow> (q * n + r + n - 1) div n = Suc q"
  by (rule div_nat_eqI) (simp_all add: mult.commute)

lemma div_up_room: "Suc (Suc k) \<le> (l + n - 1) div n \<Longrightarrow> 0 < n \<Longrightarrow> n \<le> l - k * n"
proof -
  assume h: "Suc (Suc k) \<le> (l + n - 1) div n" and n: "0 < n"
  then have "Suc (Suc k) * n \<le> l + n - 1"
    by (simp only: less_eq_div_iff_mult_less_eq)
  then have "n + k * n + n \<le> l + n - 1" by simp
  then show ?thesis using n by linarith
qed

lemma div_up_step:
  "0 < n \<Longrightarrow> \<not> l \<le> n \<Longrightarrow> (l + n - 1) div n = Suc ((l - n + n - 1) div (n::nat))"
proof -
  assume n: "0 < n" and l: "\<not> l \<le> n"
  then have "n \<le> l + n - 1" by simp
  with n have "(l + n - 1) div n = Suc ((l + n - 1 - n) div n)" by (rule le_div_geq)
  moreover have "l + n - 1 - n = l - n + n - 1" using l by simp
  ultimately show ?thesis by simp
qed

lemma mult_diff_pred: "0 < q \<Longrightarrow> q * n - (q - 1) * n = (n::nat)"
  by (cases q) simp_all

subsection \<open>Consecutive runs\<close>

lemma segments_Nil [simp]: "segments n [] = []"
  by (simp add: segments.simps)

lemma segments_zero [simp]: "segments 0 xs = []"
  by (simp add: segments.simps)

lemma segments_step:
  "xs \<noteq> [] \<Longrightarrow> 0 < n \<Longrightarrow> segments n xs = take n xs # segments n (drop n xs)"
  by (subst segments.simps) simp

lemma segments_short: "xs \<noteq> [] \<Longrightarrow> length xs \<le> n \<Longrightarrow> segments n xs = [xs]"
  by (cases "n = 0") (simp_all add: segments_step)

lemma segments_append:
  "length xs = n \<Longrightarrow> 0 < n \<Longrightarrow> segments n (xs @ ys) = xs # segments n ys"
  by (cases "xs = []") (simp_all add: segments_step)

lemma concat_segments: "0 < n \<Longrightarrow> concat (segments n xs) = xs"
proof (induction n xs rule: segments.induct)
  case (1 n xs)
  show ?case
  proof (cases "xs = []")
    case True
    then show ?thesis by simp
  next
    case False
    with 1 have "concat (segments n (drop n xs)) = drop n xs" by simp
    with False 1(2) show ?thesis by (simp add: segments_step)
  qed
qed

lemma segments_bounds: "b \<in> set (segments n xs) \<Longrightarrow> b \<noteq> [] \<and> length b \<le> n"
proof (induction n xs rule: segments.induct)
  case (1 n xs)
  show ?case
  proof (cases "xs = [] \<or> n = 0")
    case True
    with 1(2) show ?thesis by auto
  next
    case False
    then have ne: "xs \<noteq> []" "0 < n" by simp_all
    with 1(2) have "b = take n xs \<or> b \<in> set (segments n (drop n xs))"
      by (simp add: segments_step)
    then show ?thesis
    proof
      assume "b = take n xs"
      with ne show ?thesis by simp
    next
      assume "b \<in> set (segments n (drop n xs))"
      with 1(1) False show ?thesis by blast
    qed
  qed
qed

lemma length_segments: "0 < n \<Longrightarrow> length (segments n xs) = (length xs + n - 1) div n"
proof (induction n xs rule: segments.induct)
  case (1 n xs)
  show ?case
  proof (cases "xs = []")
    case True
    with 1(2) show ?thesis by simp
  next
    case False
    then have one: "Suc 0 \<le> length xs" by (cases xs) simp_all
    from 1 False have ih: "length (segments n (drop n xs)) = (length xs - n + n - 1) div n"
      by simp
    show ?thesis
    proof (cases "length xs \<le> n")
      case True
      with one have "(length xs + n - 1) div n = 1" by (rule div_up_one)
      with True False show ?thesis by (simp add: segments_short)
    next
      case False
      with 1(2) have "(length xs + n - 1) div n = Suc ((length xs - n + n - 1) div n)"
        by (rule div_up_step)
      with ih \<open>xs \<noteq> []\<close> 1(2) show ?thesis by (simp add: segments_step)
    qed
  qed
qed

lemma nth_segments:
  "k < length (segments n xs) \<Longrightarrow> segments n xs ! k = take n (drop (k * n) xs)"
proof (induction n xs arbitrary: k rule: segments.induct)
  case (1 n xs)
  from 1(2) have ne: "xs \<noteq> []" "0 < n" by (auto simp: segments.simps split: if_splits)
  show ?case
  proof (cases k)
    case 0
    with ne show ?thesis by (simp add: segments_step)
  next
    case (Suc j)
    with 1(2) ne have "j < length (segments n (drop n xs))" by (simp add: segments_step)
    with 1(1) ne have "segments n (drop n xs) ! j = take n (drop (j * n) (drop n xs))" by simp
    moreover have "j * n + n = n + j * n" by simp
    ultimately show ?thesis using Suc ne by (simp add: segments_step)
  qed
qed

lemma length_nth_segments:
  assumes "k < length (segments n xs)"
  shows "length (segments n xs ! k) = min n (length xs - k * n)"
  using nth_segments [OF assms] by simp

lemma segments_full:
  assumes "Suc k < length (segments n xs)"
  shows "length (segments n xs ! k) = n"
proof -
  from assms have n: "0 < n" by (auto simp: segments.simps split: if_splits)
  from assms have "Suc (Suc k) \<le> (length xs + n - 1) div n" by (simp add: length_segments n)
  then have "n \<le> length xs - k * n" using n by (rule div_up_room)
  moreover have "k < length (segments n xs)" using assms by simp
  ultimately show ?thesis by (simp add: length_nth_segments)
qed

lemma segments_last:
  assumes "0 < n" "xs \<noteq> []"
  shows "length (last (segments n xs)) = (if length xs mod n = 0 then n else length xs mod n)"
proof -
  let ?m = "length (segments n xs)"
  have m: "?m = (length xs + n - 1) div n" using assms by (simp add: length_segments)
  have one: "Suc 0 \<le> length xs" using assms(2) by (cases xs) simp_all
  then have "n \<le> length xs + n - 1" by linarith
  then have mpos: "0 < ?m" using assms(1) m by (simp add: div_greater_zero_iff)
  then have ne: "segments n xs \<noteq> []" by auto
  have "last (segments n xs) = segments n xs ! (?m - 1)" using ne by (simp add: last_conv_nth)
  moreover have "?m - 1 < ?m" using mpos by simp
  ultimately have l: "length (last (segments n xs)) = min n (length xs - (?m - 1) * n)"
    by (simp only: length_nth_segments)
  define q where "q = length xs div n"
  define r where "r = length xs mod n"
  have lx: "length xs = q * n + r" by (simp add: q_def r_def)
  have "length (last (segments n xs)) = (if r = 0 then n else r)"
  proof (cases "r = 0")
    case True
    with lx have lx': "length xs = q * n" by simp
    with one have qpos: "0 < q" by (cases q) auto
    then have "(q * n + n - 1) div n = q" using assms(1) by (rule div_up_exact)
    with m lx' have mq: "?m = q" by simp
    have "q * n - (q - 1) * n = n" using qpos by (rule mult_diff_pred)
    with l mq lx' have "length (last (segments n xs)) = n" by simp
    with True show ?thesis by simp
  next
    case False
    then have r: "0 < r" "r < n" using assms(1) by (simp_all add: r_def)
    then have "(q * n + r + n - 1) div n = Suc q" by (rule div_up_rest)
    with m lx have mq: "?m = Suc q" by simp
    have "length xs - q * n = r" using lx by simp
    with l mq r have "length (last (segments n xs)) = r" by simp
    with False show ?thesis by simp
  qed
  then show ?thesis by (simp only: r_def)
qed

section \<open>The index provisioner creates an absent index once\<close>

lemma without_logs_append: "without_logs (xs @ ys) = without_logs xs @ without_logs ys"
  by (induction xs rule: without_logs.induct) simp_all

lemma creation_requests_append:
  "creation_requests (xs @ ys) = creation_requests xs @ creation_requests ys"
  by (induction xs rule: creation_requests.induct) simp_all

text \<open>
  C5. \<^verbatim>\<open>createPineconeIndex\<close> lists the indexes and, exactly when the name is not among
  them, requests the creation with the given dimension and the metric \<^verbatim>\<open>cosine\<close> and
  then waits the fixed time. Let the remote service list an index once its creation was
  requested. Then two calls in sequence for a name that is absent before the first call
  request exactly one creation: the first call creates the index, and the second call
  finds the name listed and only lists the indexes. A second call never requests a creation.
\<close>

theorem createPineconeIndex_creates_when_absent:
  assumes registered: "\<And>q r. req_name q \<in> set (listIndexes c (createIndex c q r))"
  shows "without_logs
           (snd (createPineconeIndex c timeout indexName vectorDimension r) :: 'v effect list) =
           (if indexName \<in> set (listIndexes c r) then [ListIndexes]
            else [ListIndexes,
                  CreateIndex \<lparr>req_name = indexName, req_dimension = vectorDimension,
                               req_metric = ''cosine''\<rparr>,
                  Wait timeout])
         \<and> (indexName \<notin> set (listIndexes c r) \<longrightarrow>
              without_logs
                (snd (createPineconeIndex_twice c timeout indexName vectorDimension r)
                   :: 'v effect list) =
                [ListIndexes,
                 CreateIndex \<lparr>req_name = indexName, req_dimension = vectorDimension,
                              req_metric = ''cosine''\<rparr>,
                 Wait timeout,
                 ListIndexes]
              \<and> length (creation_requests
                   (snd (createPineconeIndex_twice c timeout indexName vectorDimension r)
                      :: 'v effect list)) = 1)
         \<and> creation_requests
              (snd (createPineconeIndex c timeout indexName vectorDimension
                     (fst (createPineconeIndex c timeout indexName vectorDimension r
                            :: 'r \<times> 'v effect list)))
                 :: 'v effect list) = []"
proof -
  let ?q = "\<lparr>req_name = indexName, req_dimension = vectorDimension, req_metric = ''cosine''\<rparr>"
  have "indexName \<in> set (listIndexes c (createIndex c ?q r))"
    using registered [of ?q r] by simp
  then show ?thesis
    by (simp add: createPineconeIndex_def createPineconeIndex_twice_def Let_def)
qed

text \<open>
  The theorem at the list-backed service without indexes, for the name \<^verbatim>\<open>docs\<close>: the
  name is absent before the first call.
\<close>

theorem createPineconeIndex_creates_when_absent_witness:
  "without_logs (snd (createPineconeIndex_twice list_client 5 ''docs'' 3 [])) =
     [ListIndexes,
      CreateIndex \<lparr>req_name = ''docs'', req_dimension = 3, req_metric = ''cosine''\<rparr>,
      Wait 5, ListIndexes :: nat effect]
   \<and> length (creation_requests
        (snd (createPineconeIndex_twice list_client 5 ''docs'' 3 []) :: nat effect list)) = 1"
proof -
  have registered:
    "\<And>q r. req_name q \<in> set (listIndexes list_client (createIndex list_client q r))"
    by (simp add: list_client_def)
  have absent: "''docs'' \<notin> set (listIndexes list_client [])"
    by (simp add: list_client_def)
  from absent show ?thesis
    using createPineconeIndex_creates_when_absent
      [where ?'v = nat and c = list_client and timeout = 5 and indexName = "''docs''"
        and vectorDimension = 3 and r = "[]", OF registered]
    by blast
qed

section \<open>Ingestion: every chunk is upserted, in batches of at most 100\<close>

subsection \<open>Decimal rendering\<close>

lemma digit_char_inj:
  assumes "d < 10" "e < 10" "digit_char d = digit_char e"
  shows "d = e"
proof -
  have "distinct ''0123456789''" by simp
  with assms show ?thesis by (simp add: digit_char_def nth_eq_iff_index_eq)
qed

lemma show_nat_small: "n < 10 \<Longrightarrow> show_nat n = [digit_char n]"
  by (subst show_nat.simps) simp

lemma show_nat_large:
  "\<not> n < 10 \<Longrightarrow> show_nat n = show_nat (n div 10) @ [digit_char (n mod 10)]"
  by (subst show_nat.simps) simp

lemma show_nat_nonempty: "show_nat n \<noteq> []"
  by (cases "n < 10") (simp_all add: show_nat_small show_nat_large)

lemma show_nat_nonempty': "[] \<noteq> show_nat n"
  using show_nat_nonempty [of n] by simp

lemma show_nat_inj: "show_nat m = show_nat n \<Longrightarrow> m = n"
proof (induction m arbitrary: n rule: show_nat.induct)
  case (1 m)
  show ?case
  proof (cases "m < 10")
    case m: True
    show ?thesis
    proof (cases "n < 10")
      case True
      with m 1(2) show ?thesis by (simp add: show_nat_small digit_char_inj)
    next
      case False
      with m 1(2) show ?thesis by (simp add: show_nat_small show_nat_large show_nat_nonempty show_nat_nonempty')
    qed
  next
    case m: False
    show ?thesis
    proof (cases "n < 10")
      case True
      with m 1(2) show ?thesis by (simp add: show_nat_small show_nat_large show_nat_nonempty show_nat_nonempty')
    next
      case False
      with m 1(2) have eq: "show_nat (m div 10) = show_nat (n div 10)"
        and dig: "digit_char (m mod 10) = digit_char (n mod 10)"
        by (simp_all add: show_nat_large)
      from 1(1) m eq have "m div 10 = n div 10" by simp
      moreover have "m mod 10 = n mod 10" using dig by (intro digit_char_inj) simp_all
      ultimately show ?thesis by (metis div_mult_mod_eq)
    qed
  qed
qed

subsection \<open>The upsert loop\<close>

lemma upserted_append: "upserted (xs @ ys) = upserted xs @ upserted ys"
  by (induction xs rule: upserted.induct) simp_all

lemma embedded_texts_append: "embedded_texts (xs @ ys) = embedded_texts xs @ embedded_texts ys"
  by (induction xs rule: embedded_texts.induct) simp_all

lemma upsert_loop_done:
  "\<not> idx < length chunks \<Longrightarrow>
   upsert_loop stringify indexName txtPath chunks embeddingsArrays idx batch = []"
  by (subst upsert_loop.simps) simp

lemma upsert_loop_flush:
  "idx < length chunks \<Longrightarrow>
   length batch + 1 = upsert_batchSize \<or> idx = length chunks - 1 \<Longrightarrow>
   upsert_loop stringify indexName txtPath chunks embeddingsArrays idx batch =
     Upsert indexName
       (batch @ [make_vector stringify txtPath (chunks ! idx) embeddingsArrays idx]) #
     upsert_loop stringify indexName txtPath chunks embeddingsArrays (idx + 1) []"
  by (subst upsert_loop.simps) (simp add: Let_def)

lemma upsert_loop_keep:
  "idx < length chunks \<Longrightarrow>
   \<not> (length batch + 1 = upsert_batchSize \<or> idx = length chunks - 1) \<Longrightarrow>
   upsert_loop stringify indexName txtPath chunks embeddingsArrays idx batch =
     upsert_loop stringify indexName txtPath chunks embeddingsArrays (idx + 1)
       (batch @ [make_vector stringify txtPath (chunks ! idx) embeddingsArrays idx])"
  by (subst upsert_loop.simps) (simp add: Let_def)

lemma upsert_loop_embedded_texts:
  "embedded_texts (upsert_loop stringify indexName txtPath chunks embeddingsArrays idx batch) = []"
proof (induction "length chunks - idx" arbitrary: idx batch)
  case 0
  then show ?case by (simp add: upsert_loop_done)
next
  case (Suc d)
  then have lt: "idx < length chunks" and d: "d = length chunks - (idx + 1)" by simp_all
  show ?case
  proof (cases "length batch + 1 = upsert_batchSize \<or> idx = length chunks - 1")
    case True
    with lt Suc(1) [OF d] show ?thesis by (simp add: upsert_loop_flush)
  next
    case False
    with lt Suc(1) [OF d] show ?thesis by (simp add: upsert_loop_keep)
  qed
qed

lemma upsert_loop_segments:
  assumes "length batch < upsert_batchSize" and "idx < length chunks \<or> batch = []"
  shows "upserted (upsert_loop stringify indexName txtPath chunks embeddingsArrays idx batch) =
         segments upsert_batchSize
           (batch @ map (\<lambda>i. make_vector stringify txtPath (chunks ! i) embeddingsArrays i)
                      [idx..<length chunks])"
  using assms
proof (induction "length chunks - idx" arbitrary: idx batch)
  case 0
  then show ?case by (simp add: upsert_loop_done)
next
  case (Suc d)
  let ?V = "\<lambda>i. make_vector stringify txtPath (chunks ! i) embeddingsArrays i"
  let ?N = "upsert_batchSize"
  from Suc(2) have lt: "idx < length chunks" and d: "d = length chunks - (idx + 1)" by simp_all
  have N: "0 < ?N" by (simp add: upsert_batchSize_def)
  have range: "[idx..<length chunks] = idx # [idx + 1..<length chunks]"
    using lt by (simp add: upt_conv_Cons)
  show ?case
  proof (cases "length batch + 1 = ?N \<or> idx = length chunks - 1")
    case True
    have ih: "upserted (upsert_loop stringify indexName txtPath chunks embeddingsArrays (idx + 1) [])
              = segments ?N (map ?V [idx + 1..<length chunks])"
      using Suc(1) [OF d, of "[]"] N by simp
    have "segments ?N ((batch @ [?V idx]) @ map ?V [idx + 1..<length chunks]) =
          (batch @ [?V idx]) # segments ?N (map ?V [idx + 1..<length chunks])"
    proof (cases "length batch + 1 = ?N")
      case True
      then show ?thesis using N by (intro segments_append) simp_all
    next
      case False
      with True have "idx = length chunks - 1" by simp
      with lt have e: "map ?V [idx + 1..<length chunks] = []" by simp
      have "segments ?N (batch @ [?V idx]) = [batch @ [?V idx]]"
        using Suc(3) by (intro segments_short) simp_all
      then have "segments ?N ((batch @ [?V idx]) @ []) = (batch @ [?V idx]) # segments ?N []"
        by simp
      then show ?thesis by (simp only: e)
    qed
    with True lt ih range show ?thesis by (simp add: upsert_loop_flush)
  next
    case False
    with Suc(3) lt have "length (batch @ [?V idx]) < ?N" and "idx + 1 < length chunks"
      by auto
    then have "upserted (upsert_loop stringify indexName txtPath chunks embeddingsArrays (idx + 1)
                 (batch @ [?V idx])) =
               segments ?N ((batch @ [?V idx]) @ map ?V [idx + 1..<length chunks])"
      using Suc(1) [OF d] by blast
    with False lt range show ?thesis by (simp add: upsert_loop_keep)
  qed
qed

lemma upserted_process_document:
  "upserted (process_document createDocuments embedder stringify indexName doc) =
   segments upsert_batchSize
     (map (\<lambda>i. make_vector stringify (get_prop (metadata doc) ''source'')
                 (createDocuments 1000 (pageContent doc) ! i)
                 (embedder (map (\<lambda>chunk. replace_newlines (pageContent chunk))
                    (createDocuments 1000 (pageContent doc)))) i)
        [0..<length (createDocuments 1000 (pageContent doc))])"
proof -
  have N: "0 < upsert_batchSize" by (simp add: upsert_batchSize_def)
  show ?thesis
    unfolding process_document_def Let_def upserted_append
    using upsert_loop_segments [of "[]" 0, OF _ disjI2] N by simp
qed

lemma embedded_texts_process_document:
  "embedded_texts (process_document createDocuments embedder stringify indexName doc) =
   [map (\<lambda>chunk. replace_newlines (pageContent chunk)) (createDocuments 1000 (pageContent doc))]"
  unfolding process_document_def Let_def embedded_texts_append
  by (simp add: upsert_loop_embedded_texts)

lemma upserted_updatePinecone:
  "upserted (updatePinecone createDocuments embedder stringify indexName docs) =
   concat (map (\<lambda>doc. upserted (process_document createDocuments embedder stringify indexName doc))
     docs)"
  by (induction docs) (simp_all add: updatePinecone_def upserted_append)

lemma get_prop_update:
  "get_prop (AList.update k v al) k' = (if k = k' then v else get_prop al k')"
  by (simp add: get_prop_def update_conv')

lemma make_vector_pageContent:
  "get_prop (vec_metadata (make_vector stringify txtPath chunk embeddingsArrays idx))
     ''pageContent'' = Str (pageContent chunk)"
  by (simp add: make_vector_def get_prop_update)

lemma replace_newlines_changes:
  "newline \<in> set t \<Longrightarrow> replace_newlines t \<noteq> t"
proof
  assume "newline \<in> set t" and eq: "replace_newlines t = t"
  have "newline \<notin> set (replace_newlines t)"
    by (auto simp: replace_newlines_def newline_def space_def)
  with eq \<open>newline \<in> set t\<close> show False by simp
qed

lemma inj_on_chunk_id: "inj_on (\<lambda>i. p @ ''_'' @ show_nat i) A"
  by (rule inj_onI) (simp add: show_nat_inj)

lemma map_over_indices: "map (\<lambda>i. f (xs ! i)) [0..<length xs] = map f xs"
  by (rule nth_equalityI) simp_all

lemma sample_chunks:
  "sample_splitter 1000 (pageContent sample_document) =
     [\<lparr>pageContent = ''a'', metadata = [(''loc'', Num 1)]\<rparr>,
      \<lparr>pageContent = [newline], metadata = [(''loc'', Num 1)]\<rparr>,
      \<lparr>pageContent = ''b'', metadata = [(''loc'', Num 1)]\<rparr>]"
  by (simp add: sample_splitter_def sample_document_def segments_step)

text \<open>
  C1. Let a document's text split into the chunks \<open>chunks\<close>, \<open>M\<close> of them. The records
  that \<^verbatim>\<open>updatePinecone\<close> upserts for the document are, in order and each once, the records
  of the chunks \<open>0 .. M - 1\<close>: record \<open>i\<close> has the id \<^verbatim>\<open>${txtPath}_i\<close> (the ids differ from
  one another) and carries entry \<open>i\<close> of the embeddings array. They go out in batches that
  are never empty and never longer than 100, cut exactly after every 100th record and
  after the last one: there are \<open>\<lceil>M / 100\<rceil>\<close> batches, every batch but the last has 100 records
  and the last has \<open>M mod 100\<close>, or 100 when 100 divides \<open>M\<close>. Over several documents the
  batches of each document follow one another.
\<close>

theorem updatePinecone_upserts_every_chunk:
  fixes createDocuments :: "nat \<Rightarrow> string \<Rightarrow> document list"
    and embedder :: "string list \<Rightarrow> 'v list"
    and stringify :: "jsval \<Rightarrow> jsval"
    and indexName :: string
  defines "chunks \<equiv> \<lambda>doc. createDocuments 1000 (pageContent doc)"
  defines "embeddingsArrays \<equiv> \<lambda>doc.
             embedder (map (\<lambda>chunk. replace_newlines (pageContent chunk)) (chunks doc))"
  defines "batches \<equiv> \<lambda>doc.
             upserted (process_document createDocuments embedder stringify indexName doc)"
  shows "concat (batches doc) =
           map (\<lambda>i. make_vector stringify (get_prop (metadata doc) ''source'')
                       (chunks doc ! i) (embeddingsArrays doc) i)
             [0..<length (chunks doc)]
       \<and> map vec_id (concat (batches doc)) =
           map (\<lambda>i. to_string (get_prop (metadata doc) ''source'') @ ''_'' @ show_nat i)
             [0..<length (chunks doc)]
       \<and> distinct (map vec_id (concat (batches doc)))
       \<and> map vec_values (concat (batches doc)) =
           map (nth_opt (embeddingsArrays doc)) [0..<length (chunks doc)]
       \<and> (\<forall>batch \<in> set (batches doc). batch \<noteq> [] \<and> length batch \<le> 100)
       \<and> batches doc = segments 100 (concat (batches doc))
       \<and> length (batches doc) = (length (chunks doc) + 99) div 100
       \<and> (\<forall>k. Suc k < length (batches doc) \<longrightarrow> length (batches doc ! k) = 100)
       \<and> (chunks doc \<noteq> [] \<longrightarrow>
            length (last (batches doc)) =
              (if length (chunks doc) mod 100 = 0 then 100 else length (chunks doc) mod 100))
       \<and> upserted (updatePinecone createDocuments embedder stringify indexName docs) =
           concat (map batches docs)"
proof -
  let ?V = "\<lambda>i. make_vector stringify (get_prop (metadata doc) ''source'')
                       (chunks doc ! i) (embeddingsArrays doc) i"
  let ?all = "map ?V [0..<length (chunks doc)]"
  have b: "batches doc = segments 100 ?all"
    unfolding batches_def chunks_def embeddingsArrays_def
    by (simp add: upserted_process_document upsert_batchSize_def)
  have c: "concat (batches doc) = ?all"
    by (simp add: b concat_segments)
  have ids: "map vec_id ?all =
      map (\<lambda>i. to_string (get_prop (metadata doc) ''source'') @ ''_'' @ show_nat i)
        [0..<length (chunks doc)]"
    by (simp add: make_vector_def)
  have dist: "distinct (map vec_id ?all)"
    unfolding ids distinct_map using inj_on_chunk_id distinct_upt by blast
  have vals: "map vec_values ?all = map (nth_opt (embeddingsArrays doc)) [0..<length (chunks doc)]"
    by (simp add: make_vector_def)
  have bounds: "\<forall>batch \<in> set (batches doc). batch \<noteq> [] \<and> length batch \<le> 100"
    unfolding b using segments_bounds by blast
  have seg: "batches doc = segments 100 (concat (batches doc))"
    using b c by simp
  have len: "length (batches doc) = (length (chunks doc) + 99) div 100"
    by (simp add: b length_segments)
  have full: "\<forall>k. Suc k < length (batches doc) \<longrightarrow> length (batches doc ! k) = 100"
    unfolding b using segments_full by blast
  have lst: "chunks doc \<noteq> [] \<longrightarrow>
            length (last (batches doc)) =
              (if length (chunks doc) mod 100 = 0 then 100 else length (chunks doc) mod 100)"
  proof
    assume "chunks doc \<noteq> []"
    then have "?all \<noteq> []" by simp
    then have "length (last (segments 100 ?all)) =
        (if length ?all mod 100 = 0 then 100 else length ?all mod 100)"
      by (intro segments_last) simp_all
    then show "length (last (batches doc)) =
              (if length (chunks doc) mod 100 = 0 then 100 else length (chunks doc) mod 100)"
      by (simp add: b)
  qed
  have docs: "upserted (updatePinecone createDocuments embedder stringify indexName docs) =
           concat (map batches docs)"
    unfolding batches_def by (rule upserted_updatePinecone)
  show ?thesis
    using c ids dist vals bounds seg len full lst docs by (simp only: simp_thms)
qed

text \<open>The theorem at a document of three one-character chunks.\<close>

theorem updatePinecone_upserts_every_chunk_witness:
  "map vec_id (concat (upserted (process_document sample_splitter sample_embedDocuments
      sample_stringify ''idx'' sample_document))) = [''a.txt_0'', ''a.txt_1'', ''a.txt_2'']
   \<and> length (upserted (process_document sample_splitter sample_embedDocuments
      sample_stringify ''idx'' sample_document)) = 1
   \<and> length (last (upserted (process_document sample_splitter sample_embedDocuments
      sample_stringify ''idx'' sample_document))) = 3"
proof -
  note t = updatePinecone_upserts_every_chunk
    [of sample_splitter sample_embedDocuments sample_stringify "''idx''" sample_document]
  note ids = t [THEN conjunct2, THEN conjunct1]
  note len = t [THEN conjunct2, THEN conjunct2, THEN conjunct2, THEN conjunct2, THEN conjunct2,
    THEN conjunct2, THEN conjunct1]
  note lst = t [THEN conjunct2, THEN conjunct2, THEN conjunct2, THEN conjunct2, THEN conjunct2,
    THEN conjunct2, THEN conjunct2, THEN conjunct2, THEN conjunct1]
  have src: "to_string (get_prop (metadata sample_document) ''source'') = ''a.txt''"
    by (simp add: sample_document_def get_prop_def)
  have three: "[0..<length (sample_splitter 1000 (pageContent sample_document))] = [0, 1, 2]"
    by (simp add: sample_chunks upt_rec)
  have a: "map vec_id (concat (upserted (process_document sample_splitter
      sample_embedDocuments sample_stringify ''idx'' sample_document))) =
      [''a.txt_0'', ''a.txt_1'', ''a.txt_2'']"
    unfolding ids src three by (simp add: show_nat_small digit_char_def)
  have b: "length (upserted (process_document sample_splitter
      sample_embedDocuments sample_stringify ''idx'' sample_document)) = 1"
    unfolding len by (simp add: sample_chunks)
  have c: "length (last (upserted (process_document sample_splitter
      sample_embedDocuments sample_stringify ''idx'' sample_document))) = 3"
    using lst by (simp add: sample_chunks)
  from a b c show ?thesis by (simp only: simp_thms)
qed

text \<open>
  C10. For each chunk the record that is upserted stores under \<^verbatim>\<open>pageContent\<close> the chunk's
  own text, line feeds included, while the text sent to the embedding service for the chunk
  is the one with every line feed replaced by a space; wherever the chunk has a line feed
  the two differ.
\<close>

theorem updatePinecone_stores_original_text:
  fixes createDocuments :: "nat \<Rightarrow> string \<Rightarrow> document list"
    and embedder :: "string list \<Rightarrow> 'v list"
    and stringify :: "jsval \<Rightarrow> jsval"
    and indexName :: string
    and doc :: document
  defines "chunks \<equiv> createDocuments 1000 (pageContent doc)"
  defines "effects \<equiv> process_document createDocuments embedder stringify indexName doc"
  shows "map (\<lambda>vector. get_prop (vec_metadata vector) ''pageContent'') (concat (upserted effects)) =
           map (\<lambda>chunk. Str (pageContent chunk)) chunks
       \<and> embedded_texts effects = [map (\<lambda>chunk. replace_newlines (pageContent chunk)) chunks]
       \<and> (\<forall>chunk \<in> set chunks. newline \<in> set (pageContent chunk) \<longrightarrow>
            replace_newlines (pageContent chunk) \<noteq> pageContent chunk)"
proof -
  have "concat (upserted effects) =
      map (\<lambda>i. make_vector stringify (get_prop (metadata doc) ''source'') (chunks ! i)
        (embedder (map (\<lambda>chunk. replace_newlines (pageContent chunk)) chunks)) i)
        [0..<length chunks]"
    unfolding effects_def chunks_def
    by (simp add: upserted_process_document upsert_batchSize_def concat_segments)
  then have "map (\<lambda>vector. get_prop (vec_metadata vector) ''pageContent'')
        (concat (upserted effects)) =
      map (\<lambda>i. Str (pageContent (chunks ! i))) [0..<length chunks]"
    by (simp add: make_vector_pageContent)
  also have "\<dots> = map (\<lambda>chunk. Str (pageContent chunk)) chunks"
    by (rule map_over_indices)
  finally have stored: "map (\<lambda>vector. get_prop (vec_metadata vector) ''pageContent'')
        (concat (upserted effects)) = map (\<lambda>chunk. Str (pageContent chunk)) chunks" .
  have sent: "embedded_texts effects =
      [map (\<lambda>chunk. replace_newlines (pageContent chunk)) chunks]"
    unfolding effects_def chunks_def by (rule embedded_texts_process_document)
  from stored sent show ?thesis by (simp add: replace_newlines_changes)
qed

text \<open>The theorem at the same document, whose second chunk is a line feed.\<close>

theorem updatePinecone_stores_original_text_witness:
  "map (\<lambda>vector. get_prop (vec_metadata vector) ''pageContent'')
     (concat (upserted (process_document sample_splitter sample_embedDocuments
        sample_stringify ''idx'' sample_document))) = [Str ''a'', Str [CHR 0x0A], Str ''b'']
   \<and> embedded_texts (process_document sample_splitter sample_embedDocuments
        sample_stringify ''idx'' sample_document) = [[''a'', '' '', ''b'']]"
proof -
  note t = updatePinecone_stores_original_text
    [of sample_splitter sample_embedDocuments sample_stringify "''idx''" sample_document]
  have a: "map (\<lambda>vector. get_prop (vec_metadata vector) ''pageContent'')
     (concat (upserted (process_document sample_splitter sample_embedDocuments
        sample_stringify ''idx'' sample_document))) = [Str ''a'', Str [CHR 0x0A], Str ''b'']"
    unfolding t [THEN conjunct1] by (simp add: sample_chunks newline_def)
  have b: "embedded_texts (process_document sample_splitter sample_embedDocuments
        sample_stringify ''idx'' sample_document) = [[''a'', '' '', ''b'']]"
    unfolding t [THEN conjunct2, THEN conjunct1]
    by (simp add: sample_chunks replace_newlines_def newline_def space_def)
  from a b show ?thesis by (simp only: simp_thms)
qed

section \<open>Query pipeline and entry point: results\<close>

lemma chain_calls_append: "chain_calls (xs @ ys) = chain_calls xs @ chain_calls ys"
  by (induction xs rule: chain_calls.induct) simp_all

lemma join_space_texts:
  "join_space (map Str (t # ts)) = t @ concat (map (\<lambda>u. space # u) ts)"
  by (induction ts arbitrary: t) simp_all

lemma query_matches:
  assumes "index_query indexName
             \<lparr>topK = 10, query_vector = embedder question,
              includeMetadata = True, includeValues = True\<rparr> = Some (m # ms)"
  shows "queryPineconeVectorStoreAndQueryLLM embedder index_query qa_chain render indexName
           question =
         (let queryRequest = \<lparr>topK = 10, query_vector = embedder question,
                               includeMetadata = True, includeValues = True\<rparr>;
              chain_input =
                \<lparr>chain_input_documents =
                   [\<lparr>pageContent = join_space (map match_pageContent (m # ms)),
                     metadata = []\<rparr>],
                 chain_question = question @ question_suffix\<rparr>
          in (Str (qa_chain chain_input),
              [Log ''Querying Pinecone vector store...'',
               EmbedQuery question,
               IndexQuery indexName queryRequest,
               Log (''Found '' @ show_nat (length (m # ms)) @ '' matches...''),
               Log ''Got vectors:'',
               Log (render (Some (m # ms))),
               Log (''Asking question: '' @ question @ ''...''),
               ChainCall chain_input,
               Log (''Answer: '' @ qa_chain chain_input)]))"
  using assms by (simp add: queryPineconeVectorStoreAndQueryLLM_def Let_def)

lemma query_no_matches:
  assumes "index_query indexName
             \<lparr>topK = 10, query_vector = embedder question,
              includeMetadata = True, includeValues = True\<rparr> = Some [] \<or>
           index_query indexName
             \<lparr>topK = 10, query_vector = embedder question,
              includeMetadata = True, includeValues = True\<rparr> = None"
  shows "fst (queryPineconeVectorStoreAndQueryLLM embedder index_query qa_chain render
           indexName question) = Undefined"
    and "without_logs (snd (queryPineconeVectorStoreAndQueryLLM embedder index_query qa_chain
           render indexName question)) =
         [EmbedQuery question,
          IndexQuery indexName \<lparr>topK = 10, query_vector = embedder question,
                                 includeMetadata = True, includeValues = True\<rparr>]"
    and "last (snd (queryPineconeVectorStoreAndQueryLLM embedder index_query qa_chain
           render indexName question)) =
         Log ''There is no matches, so GPT-3 will not be queried.''"
    and "chain_calls (snd (queryPineconeVectorStoreAndQueryLLM embedder index_query qa_chain
           render indexName question)) = []"
  using assms by (auto simp: queryPineconeVectorStoreAndQueryLLM_def Let_def)

lemma query_result_cases:
  "fst (queryPineconeVectorStoreAndQueryLLM embedder index_query qa_chain render
           indexName question) = Undefined \<or>
   (\<exists>answer. fst (queryPineconeVectorStoreAndQueryLLM embedder index_query qa_chain render
           indexName question) = Str answer)"
  by (simp add: queryPineconeVectorStoreAndQueryLLM_def Let_def split: option.split list.split)

text \<open>
  C2 (amended). When the index answers the query with at least one match, the function
  calls the language model exactly once. The one input document of the call is the texts
  stored under \<^verbatim>\<open>pageContent\<close> in the matches, in the order of the matches and joined by
  single spaces (for stored texts \<open>t, ts\<close> that is \<open>t\<close> followed by every further text with
  a space in front). The question of the call is the given question followed by the fixed
  suffix \<open>question_suffix\<close>. The function returns the text the model answers.
\<close>

theorem query_with_matches_asks_model_once:
  assumes "index_query indexName
             \<lparr>topK = 10, query_vector = embedder question,
              includeMetadata = True, includeValues = True\<rparr> = Some (m # ms)"
  shows "chain_calls (snd (queryPineconeVectorStoreAndQueryLLM embedder index_query qa_chain
           render indexName question)) =
           [\<lparr>chain_input_documents =
               [\<lparr>pageContent = join_space (map match_pageContent (m # ms)), metadata = []\<rparr>],
             chain_question = question @ question_suffix\<rparr>]
       \<and> fst (queryPineconeVectorStoreAndQueryLLM embedder index_query qa_chain
           render indexName question) =
           Str (qa_chain
             \<lparr>chain_input_documents =
               [\<lparr>pageContent = join_space (map match_pageContent (m # ms)), metadata = []\<rparr>],
              chain_question = question @ question_suffix\<rparr>)
       \<and> join_space (map Str (t # ts)) = t @ concat (map (\<lambda>u. space # u) ts)"
proof -
  note q = query_matches [where index_query = index_query and indexName = indexName
      and embedder = embedder and question = question and m = m and ms = ms
      and qa_chain = qa_chain and render = render]
  have calls: "chain_calls (snd (queryPineconeVectorStoreAndQueryLLM embedder index_query
      qa_chain render indexName question)) =
      [\<lparr>chain_input_documents =
          [\<lparr>pageContent = join_space (map match_pageContent (m # ms)), metadata = []\<rparr>],
        chain_question = question @ question_suffix\<rparr>]"
    using assms by (simp add: q Let_def del: join_space.simps)
  have answer: "fst (queryPineconeVectorStoreAndQueryLLM embedder index_query qa_chain
      render indexName question) =
      Str (qa_chain
        \<lparr>chain_input_documents =
           [\<lparr>pageContent = join_space (map match_pageContent (m # ms)), metadata = []\<rparr>],
         chain_question = question @ question_suffix\<rparr>)"
    using assms by (simp add: q Let_def del: join_space.simps)
  have joined: "join_space (map Str (t # ts)) = t @ concat (map (\<lambda>u. space # u) ts)"
    by (rule join_space_texts)
  from calls answer joined show ?thesis by blast
qed

text \<open>
  The theorem at an index that answers with the two matches \<^verbatim>\<open>alpha\<close> and \<^verbatim>\<open>beta\<close>.
\<close>

theorem query_with_matches_asks_model_once_witness:
  "chain_calls (snd (queryPineconeVectorStoreAndQueryLLM sample_embedder sample_index
     sample_chain sample_render ''idx'' ''why'')) =
     [\<lparr>chain_input_documents = [\<lparr>pageContent = ''alpha beta'', metadata = []\<rparr>],
       chain_question = ''why'' @ question_suffix\<rparr>]
   \<and> fst (queryPineconeVectorStoreAndQueryLLM sample_embedder sample_index
     sample_chain sample_render ''idx'' ''why'') = Str ''forty-two''"
proof -
  have matches: "sample_index ''idx''
      \<lparr>topK = 10, query_vector = sample_embedder ''why'',
       includeMetadata = True, includeValues = True\<rparr> = Some (hd sample_matches # tl sample_matches)"
    by (simp add: sample_index_def sample_matches_def)
  have joined: "join_space (map match_pageContent (hd sample_matches # tl sample_matches)) =
      ''alpha beta''"
    by (simp add: sample_matches_def match_pageContent_def get_prop_def space_def)
  note t = query_with_matches_asks_model_once [where index_query = sample_index
      and indexName = "''idx''" and embedder = sample_embedder and question = "''why''"
      and m = "hd sample_matches" and ms = "tl sample_matches"
      and qa_chain = sample_chain and render = sample_render]
  from t [OF matches] show ?thesis
    by (simp only: joined sample_chain_def simp_thms)
qed

text \<open>
  C2 as stated has the call carry the original question. With the question \<^verbatim>\<open>why\<close> the
  call's question is not \<^verbatim>\<open>why\<close>: the suffix is appended to it.
\<close>

theorem query_question_counterexample:
  "map chain_question (chain_calls (snd (queryPineconeVectorStoreAndQueryLLM sample_embedder
     sample_index sample_chain sample_render ''idx'' ''why''))) \<noteq> [''why'']"
  by (simp add: queryPineconeVectorStoreAndQueryLLM_def Let_def sample_index_def
      sample_matches_def question_suffix_def)

text \<open>
  C3. When the index answers with no match (an empty list, or no list at all), the
  function does not call the language model: its only requests are the embedding of the
  question and the index query. Its last console line says that there are no matches, and
  it returns \<^verbatim>\<open>undefined\<close>.
\<close>

theorem query_without_matches_skips_model:
  assumes "index_query indexName
             \<lparr>topK = 10, query_vector = embedder question,
              includeMetadata = True, includeValues = True\<rparr> = Some [] \<or>
           index_query indexName
             \<lparr>topK = 10, query_vector = embedder question,
              includeMetadata = True, includeValues = True\<rparr> = None"
  shows "chain_calls (snd (queryPineconeVectorStoreAndQueryLLM embedder index_query qa_chain
           render indexName question)) = []
       \<and> without_logs (snd (queryPineconeVectorStoreAndQueryLLM embedder index_query qa_chain
           render indexName question)) =
           [EmbedQuery question,
            IndexQuery indexName \<lparr>topK = 10, query_vector = embedder question,
                                   includeMetadata = True, includeValues = True\<rparr>]
       \<and> last (snd (queryPineconeVectorStoreAndQueryLLM embedder index_query qa_chain
           render indexName question)) =
           Log ''There is no matches, so GPT-3 will not be queried.''
       \<and> fst (queryPineconeVectorStoreAndQueryLLM embedder index_query qa_chain
           render indexName question) = Undefined"
proof -
  note q = query_no_matches [where index_query = index_query and indexName = indexName
      and embedder = embedder and question = question
      and qa_chain = qa_chain and render = render]
  from assms q show ?thesis by (simp only: simp_thms)
qed

text \<open>
  The theorem at an index without matches.
\<close>

theorem query_without_matches_skips_model_witness:
  "chain_calls (snd (queryPineconeVectorStoreAndQueryLLM sample_embedder empty_index
     sample_chain sample_render ''idx'' ''why'')) = []
   \<and> fst (queryPineconeVectorStoreAndQueryLLM sample_embedder empty_index
     sample_chain sample_render ''idx'' ''why'') = Undefined"
proof -
  have none: "empty_index ''idx''
      \<lparr>topK = 10, query_vector = sample_embedder ''why'',
       includeMetadata = True, includeValues = True\<rparr> = Some [] \<or>
    empty_index ''idx''
      \<lparr>topK = 10, query_vector = sample_embedder ''why'',
       includeMetadata = True, includeValues = True\<rparr> = None"
    by (simp add: empty_index_def)
  note t = query_without_matches_skips_model [where index_query = empty_index
      and indexName = "''idx''" and embedder = sample_embedder and question = "''why''"
      and qa_chain = sample_chain and render = sample_render]
  from t none show ?thesis by (simp only: simp_thms)
qed

text \<open>
  C8 (amended). The body of the response is the object with the one field \<^verbatim>\<open>data\<close>
  holding the answer text when the query pipeline returns an answer, and the empty object
  when it returns \<^verbatim>\<open>undefined\<close>; the pipeline returns nothing else. The handler has no
  effects but the pipeline's.
\<close>

theorem POST_body:
  "(fst (queryPineconeVectorStoreAndQueryLLM embedder index_query qa_chain render indexName
          body) = Str answer \<longrightarrow>
      fst (POST embedder index_query qa_chain render indexName body) =
        Some (JObject [(''data'', JString answer)]))
   \<and> (fst (queryPineconeVectorStoreAndQueryLLM embedder index_query qa_chain render indexName
          body) = Undefined \<longrightarrow>
      fst (POST embedder index_query qa_chain render indexName body) = Some (JObject []))
   \<and> (fst (queryPineconeVectorStoreAndQueryLLM embedder index_query qa_chain render indexName
          body) = Undefined \<or>
       (\<exists>text. fst (queryPineconeVectorStoreAndQueryLLM embedder index_query qa_chain render
          indexName body) = Str text))
   \<and> snd (POST embedder index_query qa_chain render indexName body) =
       snd (queryPineconeVectorStoreAndQueryLLM embedder index_query qa_chain render indexName
          body)"
  using query_result_cases [of embedder index_query qa_chain render indexName body]
  by (auto simp: POST_def split: prod.splits)

text \<open>
  The theorem at an index with matches and at one without.
\<close>

theorem POST_body_witness:
  "fst (POST sample_embedder sample_index sample_chain sample_render ''idx'' ''why'') =
     Some (JObject [(''data'', JString ''forty-two'')])
   \<and> fst (POST sample_embedder empty_index sample_chain sample_render ''idx'' ''why'') =
     Some (JObject [])"
proof -
  have a: "fst (queryPineconeVectorStoreAndQueryLLM sample_embedder sample_index sample_chain
      sample_render ''idx'' ''why'') = Str ''forty-two''"
    by (simp add: queryPineconeVectorStoreAndQueryLLM_def Let_def sample_index_def
        sample_matches_def sample_chain_def)
  have b: "fst (queryPineconeVectorStoreAndQueryLLM sample_embedder empty_index sample_chain
      sample_render ''idx'' ''why'') = Undefined"
    by (simp add: queryPineconeVectorStoreAndQueryLLM_def Let_def empty_index_def)
  from a b show ?thesis
    using POST_body [of sample_embedder sample_index sample_chain sample_render "''idx''"
        "''why''" "''forty-two''"]
      POST_body [of sample_embedder empty_index sample_chain sample_render "''idx''"
        "''why''" "''forty-two''"]
    by blast
qed

text \<open>
  C8 as stated has the body \<^verbatim>\<open>{data: null}\<close> when there is no answer. At an index without
  matches the pipeline returns \<^verbatim>\<open>undefined\<close>, and the body has no \<^verbatim>\<open>data\<close> field.
\<close>

theorem POST_null_counterexample:
  "fst (POST sample_embedder empty_index sample_chain sample_render ''idx'' ''why'') \<noteq>
     Some (JObject [(''data'', JNull)])"
  by (simp add: POST_def queryPineconeVectorStoreAndQueryLLM_def Let_def empty_index_def)

section \<open>Embedding clients: results\<close>

lemma collect_batch_done:
  "\<not> j < length batch \<Longrightarrow> collect_batch batch batchResponse j embeddings = Inr embeddings"
  by (subst collect_batch.simps) simp

lemma collect_batch_step:
  "j < length batch \<Longrightarrow> j < length batchResponse \<Longrightarrow>
   collect_batch batch batchResponse j embeddings =
     collect_batch batch batchResponse (j + 1) (embeddings @ [batchResponse ! j])"
  by (subst collect_batch.simps) simp

lemma collect_batch_short:
  "j < length batch \<Longrightarrow> \<not> j < length batchResponse \<Longrightarrow>
   collect_batch batch batchResponse j embeddings = Inl TypeError"
  by (subst collect_batch.simps) simp

lemma collect_batch_result:
  assumes "length batch \<le> length batchResponse"
  shows "collect_batch batch batchResponse j embeddings =
         Inr (embeddings @ take (length batch - j) (drop j batchResponse))"
  using assms
proof (induction "length batch - j" arbitrary: j embeddings)
  case 0
  then show ?case by (simp add: collect_batch_done)
next
  case (Suc d)
  then have j: "j < length batch" "j < length batchResponse"
    and d: "d = length batch - (j + 1)" by simp_all
  have "drop j batchResponse = batchResponse ! j # drop (j + 1) batchResponse"
    using j(2) by (simp add: Cons_nth_drop_Suc)
  moreover have "length batch - j = Suc (length batch - (j + 1))" using j(1) by simp
  ultimately have "take (length batch - j) (drop j batchResponse) =
      batchResponse ! j # take (length batch - (j + 1)) (drop (j + 1) batchResponse)"
    by simp
  with Suc(1) [OF d Suc(3)] j show ?case by (simp add: collect_batch_step)
qed

lemma collect_batches_done:
  "\<not> i < length batchResponses \<Longrightarrow>
   collect_batches batches batchResponses i embeddings = Inr embeddings"
  by (subst collect_batches.simps) simp

lemma collect_batches_step:
  "i < length batchResponses \<Longrightarrow> i < length batches \<Longrightarrow>
   collect_batch (batches ! i) (batchResponses ! i) 0 embeddings = Inr embeddings1 \<Longrightarrow>
   collect_batches batches batchResponses i embeddings =
     collect_batches batches batchResponses (i + 1) embeddings1"
  by (subst collect_batches.simps) simp

lemma collect_batches_result:
  assumes "length batches = length batchResponses"
    and "\<And>k. k < length batches \<Longrightarrow> length (batchResponses ! k) = length (batches ! k)"
  shows "collect_batches batches batchResponses i embeddings =
         Inr (embeddings @ concat (drop i batchResponses))"
  using assms(1)
proof (induction "length batchResponses - i" arbitrary: i embeddings)
  case 0
  then show ?case by (simp add: collect_batches_done)
next
  case (Suc d)
  then have i: "i < length batchResponses" "i < length batches"
    and d: "d = length batchResponses - (i + 1)" by simp_all
  have same: "length (batchResponses ! i) = length (batches ! i)" using assms(2) i(2) by simp
  then have "collect_batch (batches ! i) (batchResponses ! i) 0 embeddings =
      Inr (embeddings @ batchResponses ! i)"
    by (simp add: collect_batch_result)
  with i have "collect_batches batches batchResponses i embeddings =
      collect_batches batches batchResponses (i + 1) (embeddings @ batchResponses ! i)"
    by (rule collect_batches_step)
  also have "\<dots> = Inr ((embeddings @ batchResponses ! i) @ concat (drop (i + 1) batchResponses))"
    using Suc(1) [OF d Suc(3)] .
  also have "drop i batchResponses = batchResponses ! i # drop (i + 1) batchResponses"
    using i(1) by (simp add: Cons_nth_drop_Suc)
  then have "(embeddings @ batchResponses ! i) @ concat (drop (i + 1) batchResponses) =
      embeddings @ concat (drop i batchResponses)" by simp
  finally show ?case .
qed

lemma embedDocuments_requests:
  "fst (embedDocuments this post texts) =
   map Many (chunkArray (if stripNewLines this then map replace_newlines texts else texts)
     (batchSize this))"
  by (simp add: embedDocuments_def Let_def)

lemma input_texts_Many: "concat (map input_texts (map Many batches)) = concat batches"
  by (induction batches) simp_all

lemma embedDocuments_result:
  assumes "\<And>ts. length (post (Many ts)) = length ts"
  shows "snd (embedDocuments this post texts) =
         Inr (concat (map post (fst (embedDocuments this post texts))))"
proof -
  let ?batches = "chunkArray (if stripNewLines this then map replace_newlines texts else texts)
     (batchSize this)"
  have "collect_batches ?batches (map post (map Many ?batches)) 0 [] =
      Inr ([] @ concat (drop 0 (map post (map Many ?batches))))"
    by (rule collect_batches_result) (simp_all add: assms)
  then show ?thesis by (simp add: embedDocuments_def Let_def)
qed

lemma concat_per_text: "concat (map (per_text f) (map Many batches)) = map f (concat batches)"
  by (induction batches) simp_all

lemma length_per_text: "length (per_text f (Many ts)) = length ts"
  by simp

lemma embedDocuments_per_text:
  assumes "0 < batchSize this"
  shows "snd (embedDocuments this (per_text f) texts) =
         Inr (map f (if stripNewLines this then map replace_newlines texts else texts))"
proof -
  have "snd (embedDocuments this (per_text f) texts) =
      Inr (concat (map (per_text f) (fst (embedDocuments this (per_text f) texts))))"
    by (rule embedDocuments_result) simp
  then show ?thesis
    using assms
    by (simp only: embedDocuments_requests concat_per_text chunkArray_def concat_segments)
qed

lemma embedDocuments_loop_per_text:
  "embedDocuments_loop (per_text f) documents embeddings =
     (map Single documents, Inr (embeddings @ map f documents))"
  by (induction documents arbitrary: embeddings) simp_all

lemma embedDocuments_seq_per_text:
  "embedDocuments_seq (per_text f) documents = (map Single documents, Inr (map f documents))"
  by (simp add: embedDocuments_seq_def embedDocuments_loop_per_text)

lemma replace_newlines_same: "newline \<notin> set t \<Longrightarrow> replace_newlines t = t"
  by (induction t) (auto simp: replace_newlines_def)

lemma map_replace_newlines_same:
  "\<forall>t \<in> set texts. newline \<notin> set t \<Longrightarrow> map replace_newlines texts = texts"
  by (induction texts) (simp_all add: replace_newlines_same)

lemma replace_newlines_free: "newline \<notin> set (replace_newlines t)"
  by (auto simp: replace_newlines_def newline_def space_def)

lemma length_responses:
  assumes "\<And>ts. length (post (Many ts)) = length ts"
  shows "length (concat (map post (map Many batches))) = length (concat batches)"
  by (induction batches) (simp_all add: assms)

lemma segments_sample: "segments 2 [''a'', ''b'', ''c''] = [[''a'', ''b''], [''c'']]"
  by (simp add: segments_step)

text \<open>
  C4. Let the batch size be positive and let the embedding service answer a list of texts
  with one entry per text. For every list of texts, of any length, the batching
  \<^verbatim>\<open>embedDocuments\<close> cuts the texts (with line feeds replaced when that is switched on) into
  consecutive batches, none empty and none longer than the batch size, and issues one
  request per batch, \<open>\<lceil>length / batch size\<rceil>\<close> in all. It returns the entries of the responses in
  the order of the requests, one vector per text; for a service that embeds each text by
  itself the result is the list of the texts' embeddings, in the order of the texts.
\<close>

theorem embedDocuments_one_vector_per_text:
  fixes this :: llama_params and post :: "embed_input \<Rightarrow> 'v list" and texts :: "string list"
  defines "prepared \<equiv> (if stripNewLines this then map replace_newlines texts else texts)"
  defines "requests \<equiv> fst (embedDocuments this post texts)"
  assumes "0 < batchSize this" and "\<And>ts. length (post (Many ts)) = length ts"
  shows "requests = map Many (segments (batchSize this) prepared)
       \<and> concat (map input_texts requests) = prepared
       \<and> (\<forall>request \<in> set requests.
            input_texts request \<noteq> [] \<and> length (input_texts request) \<le> batchSize this)
       \<and> length requests = (length texts + batchSize this - 1) div batchSize this
       \<and> snd (embedDocuments this post texts) = Inr (concat (map post requests))
       \<and> length (concat (map post requests)) = length texts
       \<and> (\<forall>f. post = per_text f \<longrightarrow>
            snd (embedDocuments this post texts) = Inr (map f prepared))"
proof -
  let ?batches = "segments (batchSize this) prepared"
  have r: "requests = map Many ?batches"
    unfolding requests_def prepared_def by (simp add: embedDocuments_requests chunkArray_def)
  have c: "concat (map input_texts requests) = prepared"
    unfolding r using assms(3) by (simp only: input_texts_Many concat_segments)
  have b: "\<forall>request \<in> set requests.
      input_texts request \<noteq> [] \<and> length (input_texts request) \<le> batchSize this"
    unfolding r using segments_bounds [of _ "batchSize this" prepared] by auto
  have lp: "length prepared = length texts" by (simp add: prepared_def)
  have n: "length requests = (length texts + batchSize this - 1) div batchSize this"
    unfolding r using assms(3) by (simp add: length_segments lp)
  have v: "snd (embedDocuments this post texts) = Inr (concat (map post requests))"
    unfolding requests_def using assms(4) by (rule embedDocuments_result)
  have l: "length (concat (map post requests)) = length texts"
    unfolding r using assms(3,4) by (simp only: length_responses concat_segments lp)
  have p: "\<forall>f. post = per_text f \<longrightarrow>
      snd (embedDocuments this post texts) = Inr (map f prepared)"
    unfolding prepared_def using assms(3) by (simp add: embedDocuments_per_text)
  from r c b n v l p show ?thesis by blast
qed

text \<open>
  The theorem at three texts and the batch size 2, one text more than a batch.
\<close>

theorem embedDocuments_one_vector_per_text_witness:
  "fst (embedDocuments \<lparr>batchSize = 2, stripNewLines = True\<rparr> (per_text sample_embedder)
     [''a'', ''b'', ''c'']) = [Many [''a'', ''b''], Many [''c'']]
   \<and> snd (embedDocuments \<lparr>batchSize = 2, stripNewLines = True\<rparr> (per_text sample_embedder)
     [''a'', ''b'', ''c'']) = Inr [[97], [98], [99]]"
proof -
  have pos: "0 < batchSize \<lparr>batchSize = 2, stripNewLines = True\<rparr>" by simp
  have len: "\<And>ts. length (per_text sample_embedder (Many ts)) = length ts" by simp
  note t = embedDocuments_one_vector_per_text [where this = "\<lparr>batchSize = 2, stripNewLines = True\<rparr>"
      and post = "per_text sample_embedder" and texts = "[''a'', ''b'', ''c'']", OF pos len]
  have a: "fst (embedDocuments \<lparr>batchSize = 2, stripNewLines = True\<rparr> (per_text sample_embedder)
     [''a'', ''b'', ''c'']) = [Many [''a'', ''b''], Many [''c'']]"
    using t [THEN conjunct1]
    by (simp add: replace_newlines_def newline_def segments_sample)
  from t have "snd (embedDocuments \<lparr>batchSize = 2, stripNewLines = True\<rparr>
      (per_text sample_embedder) [''a'', ''b'', ''c'']) =
      Inr (map sample_embedder
        (if stripNewLines \<lparr>batchSize = 2, stripNewLines = True\<rparr>
         then map replace_newlines [''a'', ''b'', ''c''] else [''a'', ''b'', ''c'']))"
    by blast
  then have b: "snd (embedDocuments \<lparr>batchSize = 2, stripNewLines = True\<rparr>
      (per_text sample_embedder) [''a'', ''b'', ''c'']) = Inr [[97], [98], [99]]"
    by (simp add: replace_newlines_def newline_def sample_embedder_def)
  from a b show ?thesis by (simp only: simp_thms)
qed

text \<open>
  C7. \<^verbatim>\<open>embedQuery\<close> sends one request; its text is the given text with every line feed
  replaced by a space when \<open>stripNewLines\<close> is on, and the given text when it is off.
  \<^verbatim>\<open>embedDocuments\<close> sends the batches of the texts so replaced when \<open>stripNewLines\<close> is on,
  and the batches of the given texts when it is off; with a positive batch size the texts
  of its requests, in order, are those texts. The constructor switches \<open>stripNewLines\<close> on
  unless told otherwise. Replacing keeps the length and changes the line feeds only.
\<close>

theorem newlines_replaced_before_sending:
  "fst (embedQuery this post text) =
     [Single (if stripNewLines this then replace_newlines text else text)]
   \<and> fst (embedDocuments this post texts) =
     map Many (chunkArray (if stripNewLines this then map replace_newlines texts else texts)
       (batchSize this))
   \<and> (0 < batchSize this \<longrightarrow>
        concat (map input_texts (fst (embedDocuments this post texts))) =
          (if stripNewLines this then map replace_newlines texts else texts))
   \<and> stripNewLines (LlamaEmbeddings fields_batchSize None) = True
   \<and> stripNewLines (LlamaEmbeddings fields_batchSize (Some enabled)) = enabled
   \<and> length (replace_newlines text) = length text
   \<and> (\<forall>i < length text.
        replace_newlines text ! i = (if text ! i = CHR 0x0A then CHR 0x20 else text ! i))"
proof -
  have q: "fst (embedQuery this post text) =
     [Single (if stripNewLines this then replace_newlines text else text)]"
    by (simp add: embedQuery_def Let_def)
  have c: "0 < batchSize this \<longrightarrow>
        concat (map input_texts (fst (embedDocuments this post texts))) =
          (if stripNewLines this then map replace_newlines texts else texts)"
  proof
    assume "0 < batchSize this"
    then show "concat (map input_texts (fst (embedDocuments this post texts))) =
          (if stripNewLines this then map replace_newlines texts else texts)"
      by (simp only: embedDocuments_requests input_texts_Many chunkArray_def concat_segments)
  qed
  have d: "stripNewLines (LlamaEmbeddings fields_batchSize None) = True"
    "stripNewLines (LlamaEmbeddings fields_batchSize (Some enabled)) = enabled"
    by (simp_all add: LlamaEmbeddings_def)
  have r: "length (replace_newlines text) = length text"
    "\<forall>i < length text.
        replace_newlines text ! i = (if text ! i = CHR 0x0A then CHR 0x20 else text ! i)"
    by (simp_all add: replace_newlines_def newline_def space_def)
  from q embedDocuments_requests [of this post texts] c d r show ?thesis by blast
qed

text \<open>
  The theorem at the text \<^verbatim>\<open>a\<close>, line feed, \<^verbatim>\<open>b\<close>, with the default parameters and with
  \<open>stripNewLines\<close> off.
\<close>

theorem newlines_replaced_before_sending_witness:
  "fst (embedQuery (LlamaEmbeddings None None) (per_text sample_embedder)
      [CHR ''a'', CHR 0x0A, CHR ''b'']) = [Single ''a b'']
   \<and> fst (embedQuery (LlamaEmbeddings None (Some False)) (per_text sample_embedder)
      [CHR ''a'', CHR 0x0A, CHR ''b'']) = [Single [CHR ''a'', CHR 0x0A, CHR ''b'']]
   \<and> concat (map input_texts (fst (embedDocuments (LlamaEmbeddings None None)
      (per_text sample_embedder) [[CHR ''a'', CHR 0x0A, CHR ''b''], ''c''])))
      = [''a b'', ''c'']"
proof -
  note t1 = newlines_replaced_before_sending [of "LlamaEmbeddings None None"
      "per_text sample_embedder" "[CHR ''a'', CHR 0x0A, CHR ''b'']"
      "[[CHR ''a'', CHR 0x0A, CHR ''b''], ''c'']"]
  note t2 = newlines_replaced_before_sending [of "LlamaEmbeddings None (Some False)"
      "per_text sample_embedder" "[CHR ''a'', CHR 0x0A, CHR ''b'']"]
  have a: "fst (embedQuery (LlamaEmbeddings None None) (per_text sample_embedder)
      [CHR ''a'', CHR 0x0A, CHR ''b'']) = [Single ''a b'']"
    unfolding t1 [THEN conjunct1]
    by (simp add: LlamaEmbeddings_def replace_newlines_def newline_def space_def)
  have b: "fst (embedQuery (LlamaEmbeddings None (Some False)) (per_text sample_embedder)
      [CHR ''a'', CHR 0x0A, CHR ''b'']) = [Single [CHR ''a'', CHR 0x0A, CHR ''b'']]"
    unfolding t2 [THEN conjunct1] by (simp add: LlamaEmbeddings_def)
  have c: "concat (map input_texts (fst (embedDocuments (LlamaEmbeddings None None)
      (per_text sample_embedder) [[CHR ''a'', CHR 0x0A, CHR ''b''], ''c''])))
      = [''a b'', ''c'']"
    using t1 [THEN conjunct2, THEN conjunct2, THEN conjunct1]
    by (simp add: LlamaEmbeddings_def replace_newlines_def newline_def space_def)
  from a b c show ?thesis by (simp only: simp_thms)
qed

text \<open>
  C9 (amended). Let the batch size be positive and let the embedding service embed each
  text by itself (\<open>per_text f\<close>). The batching client returns what the sequential client
  returns for the texts with line feeds replaced when \<open>stripNewLines\<close> is on, and for the
  given texts when it is off; the same holds for \<^verbatim>\<open>embedQuery\<close>. So the two clients return
  the same vectors when \<open>stripNewLines\<close> is off or no text has a line feed. The sequential
  client returns the embeddings of the texts as they are given.
\<close>

theorem clients_agree_without_stripping:
  assumes "0 < batchSize this"
  shows "snd (embedDocuments this (per_text f) texts) =
           snd (embedDocuments_seq (per_text f)
             (if stripNewLines this then map replace_newlines texts else texts))
       \<and> snd (embedQuery this (per_text f) text) =
           snd (embedQuery_seq (per_text f)
             (if stripNewLines this then replace_newlines text else text))
       \<and> (\<not> stripNewLines this \<or> (\<forall>t \<in> set texts. newline \<notin> set t) \<longrightarrow>
            snd (embedDocuments this (per_text f) texts) =
              snd (embedDocuments_seq (per_text f) texts))
       \<and> (\<not> stripNewLines this \<or> newline \<notin> set text \<longrightarrow>
            snd (embedQuery this (per_text f) text) = snd (embedQuery_seq (per_text f) text))
       \<and> snd (embedDocuments_seq (per_text f) texts) = Inr (map f texts)
       \<and> snd (embedQuery_seq (per_text f) text) = Inr (f text)"
proof -
  have d: "snd (embedDocuments this (per_text f) texts) =
      Inr (map f (if stripNewLines this then map replace_newlines texts else texts))"
    using assms by (rule embedDocuments_per_text)
  have s: "\<And>documents. snd (embedDocuments_seq (per_text f) documents) = Inr (map f documents)"
    by (simp add: embedDocuments_seq_per_text)
  have q: "snd (embedQuery this (per_text f) text) =
      Inr (f (if stripNewLines this then replace_newlines text else text))"
    by (simp add: embedQuery_def Let_def)
  have qs: "\<And>t. snd (embedQuery_seq (per_text f) t) = Inr (f t)"
    by (simp add: embedQuery_seq_def Let_def)
  have same: "\<not> stripNewLines this \<or> (\<forall>t \<in> set texts. newline \<notin> set t) \<longrightarrow>
      (if stripNewLines this then map replace_newlines texts else texts) = texts"
    by (auto simp: map_replace_newlines_same)
  have same1: "\<not> stripNewLines this \<or> newline \<notin> set text \<longrightarrow>
      (if stripNewLines this then replace_newlines text else text) = text"
    by (auto simp: replace_newlines_same)
  show ?thesis
    unfolding d s q qs using same same1 by auto
qed

text \<open>
  The theorem at a text with a line feed, with \<open>stripNewLines\<close> off.
\<close>

theorem clients_agree_without_stripping_witness:
  "snd (embedDocuments (LlamaEmbeddings None (Some False)) (per_text sample_embedder)
      [[CHR ''a'', CHR 0x0A, CHR ''b'']]) =
   snd (embedDocuments_seq (per_text sample_embedder) [[CHR ''a'', CHR 0x0A, CHR ''b'']])
   \<and> snd (embedDocuments_seq (per_text sample_embedder) [[CHR ''a'', CHR 0x0A, CHR ''b'']]) =
     Inr [[97, 10, 98]]"
proof -
  have pos: "0 < batchSize (LlamaEmbeddings None (Some False))"
    by (simp add: LlamaEmbeddings_def)
  note t = clients_agree_without_stripping [where this = "LlamaEmbeddings None (Some False)"
      and f = sample_embedder and texts = "[[CHR ''a'', CHR 0x0A, CHR ''b'']]", OF pos]
  have off: "\<not> stripNewLines (LlamaEmbeddings None (Some False))"
    by (simp add: LlamaEmbeddings_def)
  from t off have a: "snd (embedDocuments (LlamaEmbeddings None (Some False))
      (per_text sample_embedder) [[CHR ''a'', CHR 0x0A, CHR ''b'']]) =
      snd (embedDocuments_seq (per_text sample_embedder) [[CHR ''a'', CHR 0x0A, CHR ''b'']])"
    by blast
  from t have "snd (embedDocuments_seq (per_text sample_embedder)
      [[CHR ''a'', CHR 0x0A, CHR ''b'']]) =
      Inr (map sample_embedder [[CHR ''a'', CHR 0x0A, CHR ''b'']])" by blast
  then have b: "snd (embedDocuments_seq (per_text sample_embedder)
      [[CHR ''a'', CHR 0x0A, CHR ''b'']]) = Inr [[97, 10, 98]]"
    by (simp add: sample_embedder_def)
  from a b show ?thesis by (simp only: simp_thms)
qed

text \<open>
  C9 as stated has the two clients return the same vectors for every list of texts. With
  the default parameters and the text \<^verbatim>\<open>a\<close>, line feed, \<^verbatim>\<open>b\<close> the batching client embeds
  \<^verbatim>\<open>a b\<close> and the sequential client embeds the text with its line feed.
\<close>

theorem clients_differ_counterexample:
  "snd (embedDocuments (LlamaEmbeddings None None) (per_text sample_embedder)
      [[CHR ''a'', CHR 0x0A, CHR ''b'']]) \<noteq>
   snd (embedDocuments_seq (per_text sample_embedder) [[CHR ''a'', CHR 0x0A, CHR ''b'']])"
proof -
  have pos: "0 < batchSize (LlamaEmbeddings None None)"
    by (simp add: LlamaEmbeddings_def)
  have "snd (embedDocuments (LlamaEmbeddings None None) (per_text sample_embedder)
      [[CHR ''a'', CHR 0x0A, CHR ''b'']]) =
      Inr (map sample_embedder
        (if stripNewLines (LlamaEmbeddings None None)
         then map replace_newlines [[CHR ''a'', CHR 0x0A, CHR ''b'']]
         else [[CHR ''a'', CHR 0x0A, CHR ''b'']]))"
    using pos by (rule embedDocuments_per_text)
  then have "snd (embedDocuments (LlamaEmbeddings None None) (per_text sample_embedder)
      [[CHR ''a'', CHR 0x0A, CHR ''b'']]) = Inr [[97, 32, 98]]"
    by (simp add: LlamaEmbeddings_def replace_newlines_def
        newline_def space_def sample_embedder_def)
  moreover have "snd (embedDocuments_seq (per_text sample_embedder)
      [[CHR ''a'', CHR 0x0A, CHR ''b'']]) = Inr [[97, 10, 98]]"
    by (simp add: embedDocuments_seq_per_text sample_embedder_def)
  ultimately show ?thesis by simp
qed

end
